theory Spec2Isabelle
  imports Complex_Main "HOL-Library.Word" "HOL-Library.AList"
begin

section \<open>graypy: GELF logging handlers (src/graypy/handler.py)\<close>

subsection \<open>Bytes, exceptions and \<open>struct.pack\<close>\<close>

type_synonym byte = "8 word"
type_synonym bytes = "byte list"

text \<open>
  The exceptions the modelled code can raise. Failures of the network and of host name
  resolution are outside the model: a socket write is assumed to succeed.
\<close>

datatype error = ZeroDivisionError | StructError | ValueError | AttributeError | TypeError

text \<open>
  \<open>struct.pack('B', n)\<close>: one unsigned byte; \<open>struct.error\<close> outside \<open>0..255\<close>
  (the native packer checks the range in every Python version the module supports).
\<close>

definition pack_B :: "int \<Rightarrow> error + bytes" where
  "pack_B n = (if 0 \<le> n \<and> n \<le> 255 then Inr [word_of_int n] else Inl StructError)"

text \<open>
  \<open>struct.pack('Q', n)\<close>: eight bytes in the byte order of the machine. The argument
  is \<open>random.randint(0, 0xFFFFFFFFFFFFFFFF)\<close>, which always fits: it is a 64-bit word here.
\<close>

datatype byteorder = LittleEndian | BigEndian

definition pack_Q :: "byteorder \<Rightarrow> 64 word \<Rightarrow> bytes" where
  "pack_Q bo w =
     (let le = map (\<lambda>k. ucast (drop_bit (8 * k) w)) [0..<8]
      in case bo of LittleEndian \<Rightarrow> le | BigEndian \<Rightarrow> rev le)"

subsection \<open>\<open>ChunkedGELF\<close>\<close>

text \<open>
  The instance attributes set by \<open>__init__\<close>. No method assigns to \<open>self\<close> afterwards, so
  the methods below read the instance and never return a changed one.
\<close>

record ChunkedGELF =
  cg_message :: bytes
  cg_size :: int
  cg_pieces :: bytes
  cg_id :: bytes

text \<open>
  \<open>int(math.ceil(len(message) * 1.0 / size))\<close>. The quotient is a double in the source and
  a real here; the two ceilings agree for every length below \<open>2 ^ 53\<close>. The division
  raises \<open>ZeroDivisionError\<close> for \<open>size = 0\<close>.
\<close>

definition pieces_count :: "bytes \<Rightarrow> int \<Rightarrow> int" where
  "pieces_count message sz = \<lceil>real (length message) * 1.0 / real_of_int sz\<rceil>"

text \<open>
  \<open>ChunkedGELF.__init__(message, size)\<close>; \<open>bo\<close> is the machine's byte order and \<open>rnd\<close> the
  number \<open>random.randint\<close> draws.
\<close>

definition ChunkedGELF_init :: "byteorder \<Rightarrow> 64 word \<Rightarrow> bytes \<Rightarrow> int \<Rightarrow> error + ChunkedGELF" where
  "ChunkedGELF_init bo rnd message sz =
     (if sz = 0 then Inl ZeroDivisionError
      else case pack_B (pieces_count message sz) of
          Inl e \<Rightarrow> Inl e
        | Inr p \<Rightarrow> Inr \<lparr>cg_message = message, cg_size = sz, cg_pieces = p,
                       cg_id = pack_Q bo rnd\<rparr>)"

text \<open>
  \<open>message[i:j]\<close> for the indices \<open>message_chunks\<close> uses (\<open>0 \<le> i \<le> j\<close>).
\<close>

definition message_slice :: "bytes \<Rightarrow> int \<Rightarrow> int \<Rightarrow> bytes" where
  "message_slice message i j = take (nat (j - i)) (drop (nat i) message)"

text \<open>\<open>i in range(0, stop, step)\<close> for a value \<open>i\<close> the range has reached.\<close>

definition range_has :: "int \<Rightarrow> int \<Rightarrow> int \<Rightarrow> bool" where
  "range_has i stop step = (if 0 < step then i < stop else stop < i)"

text \<open>\<open>ChunkedGELF.encode(sequence, chunk)\<close>.\<close>

definition encode :: "ChunkedGELF \<Rightarrow> nat \<Rightarrow> bytes \<Rightarrow> error + bytes" where
  "encode c sequence chunk =
     (case pack_B (int sequence) of
        Inl e \<Rightarrow> Inl e
      | Inr s \<Rightarrow> Inr ([0x1e, 0x0f] @ cg_id c @ s @ cg_pieces c @ chunk))"

text \<open>
  \<open>__iter__\<close> is a generator function: every call makes a new generator object, whose
  state is the counter of \<open>enumerate\<close>, the position of \<open>range(0, len(message), size)\<close>
  and whether it has finished. \<open>next_chunk\<close> is one \<open>next()\<close> on it: it yields the next
  encoded chunk, raises (a zero step of \<open>range\<close>, or \<open>struct.error\<close> from \<open>encode\<close>), or
  stops; a generator that raised or stopped stays finished.
\<close>

record generator =
  g_sequence :: nat
  g_i :: int
  g_finished :: bool

datatype step = Yield bytes | StopIteration | Raise error

definition ChunkedGELF_iter :: "ChunkedGELF \<Rightarrow> generator" where
  "ChunkedGELF_iter c = \<lparr>g_sequence = 0, g_i = 0, g_finished = False\<rparr>"

definition next_chunk :: "ChunkedGELF \<Rightarrow> generator \<Rightarrow> step \<times> generator" where
  "next_chunk c g =
     (if g_finished g then (StopIteration, g)
      else if cg_size c = 0 then (Raise ValueError, g\<lparr>g_finished := True\<rparr>)
      else if range_has (g_i g) (int (length (cg_message c))) (cg_size c) then
        (case encode c (g_sequence g) (message_slice (cg_message c) (g_i g) (g_i g + cg_size c)) of
           Inl e \<Rightarrow> (Raise e, g\<lparr>g_finished := True\<rparr>)
         | Inr b \<Rightarrow> (Yield b, g\<lparr>g_sequence := Suc (g_sequence g), g_i := g_i g + cg_size c\<rparr>))
      else (StopIteration, g\<lparr>g_finished := True\<rparr>))"

text \<open>
  A \<open>for\<close> loop over a generator: the chunks it yields in order, the exception that ended
  the loop if one did, and the generator as the loop leaves it.
\<close>

function drain :: "ChunkedGELF \<Rightarrow> generator \<Rightarrow> bytes list \<times> error option \<times> generator" where
  "drain c g =
     (case next_chunk c g of
        (Yield b, g') \<Rightarrow> (case drain c g' of (bs, e, gf) \<Rightarrow> (b # bs, e, gf))
      | (StopIteration, g') \<Rightarrow> ([], None, g')
      | (Raise e, g') \<Rightarrow> ([], Some e, g'))"
  by pat_completeness auto
termination
proof (relation "measure (\<lambda>(c, g). nat (if 0 < cg_size c then int (length (cg_message c)) - g_i g
      else g_i g - int (length (cg_message c))))")
  show "wf (measure (\<lambda>(c, g). nat (if 0 < cg_size c then int (length (cg_message c)) - g_i g
      else g_i g - int (length (cg_message c)))))"
    by simp
next
  fix c g x g' b
  assume "(x, g') = next_chunk c g" and "x = Yield b"
  then have "next_chunk c g = (Yield b, g')"
    by simp
  then have "cg_size c \<noteq> 0 \<and> range_has (g_i g) (int (length (cg_message c))) (cg_size c)
      \<and> g_i g' = g_i g + cg_size c"
    by (auto simp: next_chunk_def split: if_splits sum.splits)
  then show "((c, g'), (c, g)) \<in> measure (\<lambda>(c, g). nat (if 0 < cg_size c then int (length (cg_message c)) - g_i g
      else g_i g - int (length (cg_message c))))"
    by (auto simp: range_has_def split: if_splits)
qed

declare drain.simps [simp del]

text \<open>
  \<open>ChunkedGELF(message, size)\<close> built and iterated to its end, as the \<open>for\<close> loop of
  \<open>GELFUDPHandler.send\<close> does: the chunks yielded, and the exception if one was raised.
\<close>

definition ChunkedGELF_chunks ::
  "byteorder \<Rightarrow> 64 word \<Rightarrow> bytes \<Rightarrow> int \<Rightarrow> bytes list \<times> error option" where
  "ChunkedGELF_chunks bo rnd message sz =
     (case ChunkedGELF_init bo rnd message sz of
        Inl e \<Rightarrow> ([], Some e)
      | Inr c \<Rightarrow> (case drain c (ChunkedGELF_iter c) of (chunks, e, g) \<Rightarrow> (chunks, e)))"

text \<open>
  The generator after \<open>k\<close> calls of \<open>next()\<close> on a new iterator of the instance.
\<close>

definition generator_after :: "ChunkedGELF \<Rightarrow> nat \<Rightarrow> generator" where
  "generator_after c k = ((\<lambda>g. snd (next_chunk c g)) ^^ k) (ChunkedGELF_iter c)"

text \<open>
  Two \<open>for\<close> loops over the same instance, one after the other (\<open>list(c), list(c)\<close>):
  each calls \<open>__iter__\<close> and so gets a generator of its own; the chunks of the first loop
  and of the second.
\<close>

definition iterate_twice :: "ChunkedGELF \<Rightarrow> bytes list \<times> bytes list" where
  "iterate_twice c =
     (case drain c (ChunkedGELF_iter c) of
        (first, e1, g1) \<Rightarrow>
          (case drain c (ChunkedGELF_iter c) of (second, e2, g2) \<Rightarrow> (first, second)))"

text \<open>
  The number of values of \<open>range(0, len(message), size)\<close> for a size that \<open>__init__\<close>
  accepts, and the frame of the \<open>k\<close>-th chunk for a positive size; both serve the proofs.
\<close>

definition chunk_total :: "bytes \<Rightarrow> int \<Rightarrow> nat" where
  "chunk_total m sz = (if 0 < sz then nat (pieces_count m sz) else 0)"

definition frame :: "ChunkedGELF \<Rightarrow> nat \<Rightarrow> bytes" where
  "frame c k =
     [0x1e, 0x0f] @ cg_id c @ [word_of_nat k] @ cg_pieces c
       @ take (nat (cg_size c)) (drop (k * nat (cg_size c)) (cg_message c))"

subsection \<open>Python values, log records and the library functions the handlers call\<close>

text \<open>
  The values a document field or a record attribute can hold. A \<open>datetime\<close> is kept as its
  \<open>isoformat()\<close> and any other object as an opaque name; a \<open>dict\<close> is the list of its items
  in iteration order.
\<close>

datatype pyval =
    PNone
  | PBool bool
  | PInt int
  | PFloat real
  | PStr string
  | PBytes bytes
  | PList "pyval list"
  | PTuple "pyval list"
  | PDict "(pyval \<times> pyval) list"
  | PDatetime string
  | PObject string

text \<open>
  A \<open>logging.LogRecord\<close>, by the attributes the handlers read. \<open>getMessage\<close> is the result of
  \<open>record.getMessage()\<close>; \<open>exc_info\<close> is \<open>None\<close> when the attribute is falsy and otherwise
  the lines \<open>traceback.format_exception(*record.exc_info)\<close> returns; \<open>processName\<close> is
  \<open>PNone\<close> when the attribute is missing or \<open>None\<close> (\<open>getattr(record, 'processName', None)\<close>);
  \<open>dict_items\<close> is \<open>record.__dict__.items()\<close>: every instance attribute, the standard ones
  included, in iteration order.
\<close>

record LogRecord =
  name :: string
  levelno :: int
  pathname :: pyval
  lineno :: pyval
  funcName :: pyval
  created :: real
  process :: pyval
  threadName :: pyval
  processName :: pyval
  exc_info :: "string list option"
  exc_text :: "string option"
  getMessage :: string
  dict_items :: "(string \<times> pyval) list"

text \<open>
  What the handlers take from the standard library and the machine: \<open>socket.getfqdn()\<close>,
  \<open>socket.gethostname()\<close>, \<open>logging.getLevelName\<close>, \<open>repr\<close>, \<open>json.dumps(obj,
  separators=',:', default=f)\<close>, \<open>str.encode('utf-8')\<close>, \<open>bytes.decode('utf-8',
  errors='replace')\<close> and \<open>zlib.compress\<close>. None of them is code of this module: they are
  parameters.
\<close>

record env =
  getfqdn :: string
  gethostname :: string
  getLevelName :: "int \<Rightarrow> string"
  py_repr :: "pyval \<Rightarrow> string"
  json_dumps :: "(pyval \<Rightarrow> string) \<Rightarrow> pyval \<Rightarrow> error + string"
  utf8_encode :: "string \<Rightarrow> bytes"
  utf8_decode_replace :: "bytes \<Rightarrow> string"
  zlib_compress :: "bytes \<Rightarrow> bytes"

subsection \<open>\<open>BaseGELFHandler\<close>\<close>

text \<open>The levels of the \<open>logging\<close> module and the table \<open>SYSLOG_LEVELS\<close>.\<close>

definition logging_CRITICAL :: int where "logging_CRITICAL = 50"
definition logging_ERROR :: int where "logging_ERROR = 40"
definition logging_WARNING :: int where "logging_WARNING = 30"
definition logging_INFO :: int where "logging_INFO = 20"
definition logging_DEBUG :: int where "logging_DEBUG = 10"

definition SYSLOG_LEVELS :: "(int \<times> int) list" where
  "SYSLOG_LEVELS =
     [(logging_CRITICAL, 2), (logging_ERROR, 3), (logging_WARNING, 4), (logging_INFO, 6),
      (logging_DEBUG, 7)]"

text \<open>\<open>d.get(k, default)\<close> and \<open>d.update({k1: v1, ...})\<close> on a \<open>dict\<close> kept as its item list.\<close>

definition dict_get :: "('k \<times> 'v) list \<Rightarrow> 'k \<Rightarrow> 'v \<Rightarrow> 'v" where
  "dict_get d k dflt = (case map_of d k of Some v \<Rightarrow> v | None \<Rightarrow> dflt)"

definition dict_update :: "('k \<times> 'v) list \<Rightarrow> ('k \<times> 'v) list \<Rightarrow> ('k \<times> 'v) list" where
  "dict_update d kvs = fold (\<lambda>(k, v). AList.update k v) kvs d"

text \<open>
  The handler's configuration, as \<open>BaseGELFHandler.__init__\<close> stores it; \<open>formatter\<close> is
  the attribute of \<open>logging.Handler\<close> (\<open>None\<close> until \<open>setFormatter\<close> is called).
\<close>

record BaseGELFHandler =
  debugging_fields :: bool
  extra_fields :: bool
  chunk_size :: int
  fqdn :: bool
  localname :: "string option"
  facility :: "string option"
  level_names :: bool
  compress :: bool
  formatter :: "(LogRecord \<Rightarrow> string) option"

definition BaseGELFHandler_init ::
  "int \<Rightarrow> bool \<Rightarrow> bool \<Rightarrow> bool \<Rightarrow> string option \<Rightarrow> string option \<Rightarrow> bool \<Rightarrow> bool \<Rightarrow> BaseGELFHandler" where
  "BaseGELFHandler_init chunk_size' debugging_fields' extra_fields' fqdn' localname' facility'
       level_names' compress' =
     \<lparr>debugging_fields = debugging_fields', extra_fields = extra_fields',
      chunk_size = chunk_size', fqdn = fqdn', localname = localname', facility = facility',
      level_names = level_names', compress = compress', formatter = None\<rparr>"

text \<open>The truth value of an attribute that is \<open>None\<close> or a string.\<close>

definition truthy :: "string option \<Rightarrow> bool" where
  "truthy x = (case x of None \<Rightarrow> False | Some t \<Rightarrow> t \<noteq> [])"

text \<open>\<open>sep.join(xs)\<close>.\<close>

fun join :: "string \<Rightarrow> string list \<Rightarrow> string" where
  "join sep [] = []"
| "join sep [x] = x"
| "join sep (x # y # ys) = x @ sep @ join sep (y # ys)"

text \<open>\<open>BaseGELFHandler._get_full_message(record)\<close>.\<close>

definition get_full_message :: "LogRecord \<Rightarrow> string" where
  "get_full_message r =
     (case exc_info r of
        Some lines \<Rightarrow> join [CHR 0x0A] lines
      | None \<Rightarrow> if truthy (exc_text r) then the (exc_text r) else getMessage r)"

text \<open>\<open>BaseGELFHandler._add_extra_fields(message_dict, record)\<close>.\<close>

definition skip_list :: "string list" where
  "skip_list =
     [''args'', ''asctime'', ''created'', ''exc_info'', ''exc_text'', ''filename'',
      ''funcName'', ''id'', ''levelname'', ''levelno'', ''lineno'', ''module'',
      ''msecs'', ''message'', ''msg'', ''name'', ''pathname'', ''process'',
      ''processName'', ''relativeCreated'', ''thread'', ''threadName'']"

definition startswith :: "string \<Rightarrow> string \<Rightarrow> bool" where
  "startswith key p = (take (length p) key = p)"

definition add_extra_fields :: "(string \<times> pyval) list \<Rightarrow> LogRecord \<Rightarrow> (string \<times> pyval) list" where
  "add_extra_fields message_dict r =
     fold (\<lambda>(key, v) d.
        if key \<notin> set skip_list \<and> \<not> startswith key ''_'' then AList.update (''_'' @ key) v d
        else d)
       (dict_items r) message_dict"

text \<open>\<open>BaseGELFHandler._make_message_dict(record)\<close>.\<close>

definition make_message_dict :: "env \<Rightarrow> BaseGELFHandler \<Rightarrow> LogRecord \<Rightarrow> (string \<times> pyval) list" where
  "make_message_dict ev h r =
     (let host = (if fqdn h then getfqdn ev
                  else if truthy (localname h) then the (localname h)
                  else gethostname ev);
          fields0 =
            [(''version'', PStr ''1.0''),
             (''host'', PStr host),
             (''short_message'',
                PStr (case formatter h of Some f \<Rightarrow> f r | None \<Rightarrow> getMessage r)),
             (''full_message'',
                PStr (case formatter h of Some f \<Rightarrow> f r | None \<Rightarrow> get_full_message r)),
             (''timestamp'', PFloat (created r)),
             (''level'', PInt (dict_get SYSLOG_LEVELS (levelno r) (levelno r))),
             (''facility'', PStr (if truthy (facility h) then the (facility h) else name r))];
          fields1 =
            (if level_names h
             then AList.update ''level_name'' (PStr (getLevelName ev (levelno r))) fields0
             else fields0);
          fields2 =
            (if facility h \<noteq> None then dict_update fields1 [(''_logger'', PStr (name r))]
             else fields1);
          fields3 =
            (if debugging_fields h then
               (let d = dict_update fields2
                      [(''file'', pathname r), (''line'', lineno r),
                       (''_function'', funcName r), (''_pid'', process r),
                       (''_thread_name'', threadName r)]
                in if processName r \<noteq> PNone then AList.update ''_process_name'' (processName r) d
                   else d)
             else fields2)
      in if extra_fields h then add_extra_fields fields3 r else fields3)"

text \<open>\<open>BaseGELFHandler._smarter_repr(obj)\<close>.\<close>

definition smarter_repr :: "env \<Rightarrow> pyval \<Rightarrow> string" where
  "smarter_repr ev obj = (case obj of PDatetime isoformat \<Rightarrow> isoformat | _ \<Rightarrow> py_repr ev obj)"

text \<open>
  \<open>BaseGELFHandler._sanitize(obj)\<close>, with \<open>data = bytes\<close> as on Python 3. \<open>dict(pairs)\<close>
  keeps, for a key given twice, the place of the first pair and the value of the last.
\<close>

fun sanitize :: "env \<Rightarrow> pyval \<Rightarrow> pyval" where
  "sanitize ev (PDict kvs) =
     PDict (dict_update [] (map (\<lambda>(k, v). (sanitize ev k, sanitize ev v)) kvs))"
| "sanitize ev (PList xs) = PList (map (sanitize ev) xs)"
| "sanitize ev (PTuple xs) = PTuple (map (sanitize ev) xs)"
| "sanitize ev (PBytes b) = PStr (utf8_decode_replace ev b)"
| "sanitize ev obj = obj"

text \<open>\<open>BaseGELFHandler._message_to_pickle(obj)\<close>.\<close>

definition message_to_pickle :: "env \<Rightarrow> pyval \<Rightarrow> error + bytes" where
  "message_to_pickle ev obj =
     (case json_dumps ev (smarter_repr ev) (sanitize ev obj) of
        Inl e \<Rightarrow> Inl e
      | Inr serialized \<Rightarrow> Inr (utf8_encode ev serialized))"

text \<open>\<open>BaseGELFHandler.makePickle(record)\<close>.\<close>

definition makePickle :: "env \<Rightarrow> BaseGELFHandler \<Rightarrow> LogRecord \<Rightarrow> error + bytes" where
  "makePickle ev h r =
     (let message_dict = make_message_dict ev h r
      in case message_to_pickle ev (PDict (map (\<lambda>(k, v). (PStr k, v)) message_dict)) of
           Inl e \<Rightarrow> Inl e
         | Inr packed \<Rightarrow> Inr (if compress h then zlib_compress ev packed else packed))"

subsection \<open>\<open>GELFUDPHandler\<close>\<close>

text \<open>
  \<open>GELFUDPHandler.send(s)\<close>: the datagrams handed to \<open>DatagramHandler.send\<close>, in order, and
  the exception that ended the call if one did.
\<close>

definition GELFUDPHandler_send ::
  "BaseGELFHandler \<Rightarrow> byteorder \<Rightarrow> 64 word \<Rightarrow> bytes \<Rightarrow> bytes list \<times> error option" where
  "GELFUDPHandler_send h bo rnd s =
     (if int (length s) < chunk_size h then ([s], None)
      else case ChunkedGELF_init bo rnd s (chunk_size h) of
          Inl e \<Rightarrow> ([], Some e)
        | Inr c \<Rightarrow> (case drain c (ChunkedGELF_iter c) of (sent, e, g) \<Rightarrow> (sent, e)))"

subsection \<open>\<open>GELFTCPHandler\<close>\<close>

text \<open>
  \<open>GELFTCPHandler.__init__\<close> takes no \<open>compress\<close> argument and passes \<open>False\<close> to
  \<open>BaseGELFHandler.__init__\<close>. Host, port and the TLS arguments do not reach the base
  class and are left out.
\<close>

definition GELFTCPHandler_init ::
  "int \<Rightarrow> bool \<Rightarrow> bool \<Rightarrow> bool \<Rightarrow> string option \<Rightarrow> string option \<Rightarrow> bool \<Rightarrow> BaseGELFHandler" where
  "GELFTCPHandler_init chunk_size' debugging_fields' extra_fields' fqdn' localname' facility'
       level_names' =
     BaseGELFHandler_init chunk_size' debugging_fields' extra_fields' fqdn' localname' facility'
       level_names' False"

text \<open>
  \<open>GELFTCPHandler.makePickle(record)\<close> is \<open>super.makePickle(self, record) + b'\x00'\<close>. The
  name \<open>super\<close> is the builtin type, not a bound \<open>super()\<close> object: the lookup of
  \<open>makePickle\<close> on it raises \<open>AttributeError\<close> before \<open>BaseGELFHandler.makePickle\<close> is
  called and before the null byte is appended.
\<close>

definition GELFTCPHandler_makePickle :: "env \<Rightarrow> BaseGELFHandler \<Rightarrow> LogRecord \<Rightarrow> error + bytes" where
  "GELFTCPHandler_makePickle ev h r = Inl AttributeError"

subsection \<open>Inputs for the examples\<close>

text \<open>
  A machine and library stand-in, a record with the extra attributes \<open>user\<close>, \<open>logger\<close>,
  \<open>id\<close>, \<open>_private\<close> and \<open>pid\<close> next to standard ones, and a UDP handler with the defaults of the
  constructor.
\<close>

definition example_env :: env where
  "example_env =
     \<lparr>getfqdn = ''host.example.org'', gethostname = ''host'',
      getLevelName = (\<lambda>n. ''Level''), py_repr = (\<lambda>v. ''<object>''),
      json_dumps = (\<lambda>f v. Inr ''{}''), utf8_encode = (\<lambda>s. []),
      utf8_decode_replace = (\<lambda>b. ''''), zlib_compress = (\<lambda>b. b)\<rparr>"

definition example_record :: LogRecord where
  "example_record =
     \<lparr>name = ''app.db'', levelno = 40, pathname = PStr ''/srv/app/db.py'', lineno = PInt 12,
      funcName = PStr ''connect'', created = 1700000000, process = PInt 4242,
      threadName = PStr ''MainThread'', processName = PStr ''MainProcess'',
      exc_info = None, exc_text = None, getMessage = ''connection lost'',
      dict_items =
        [(''name'', PStr ''app.db''), (''msg'', PStr ''connection lost''),
         (''levelno'', PInt 40), (''user'', PStr ''bob''), (''logger'', PStr ''other''),
         (''id'', PInt 7), (''_private'', PInt 1), (''pid'', PInt 1)]\<rparr>"

definition example_handler :: BaseGELFHandler where
  "example_handler = BaseGELFHandler_init 1420 True True False None None False True"

section \<open>Properties\<close>

subsection \<open>The chunker: auxiliary facts\<close>

lemma pieces_count_less_iff:
  assumes "0 < sz"
  shows "int k < pieces_count m sz \<longleftrightarrow> int k * sz < int (length m)"
proof -
  have "int k < pieces_count m sz \<longleftrightarrow> real k < real (length m) / real_of_int sz"
    by (simp add: pieces_count_def less_ceiling_iff)
  also have "\<dots> \<longleftrightarrow> real k * real_of_int sz < real (length m)"
    using assms by (simp add: pos_less_divide_eq)
  also have "\<dots> \<longleftrightarrow> real_of_int (int k * sz) < real_of_int (int (length m))"
    by simp
  also have "\<dots> \<longleftrightarrow> int k * sz < int (length m)"
    by (simp only: of_int_less_iff)
  finally show ?thesis .
qed

lemma pieces_count_nonneg:
  assumes "0 < sz"
  shows "0 \<le> pieces_count m sz"
proof -
  have "(0::real) \<le> real (length m) * 1.0 / real_of_int sz"
    using assms by simp
  then have "\<lceil>0::real\<rceil> \<le> \<lceil>real (length m) * 1.0 / real_of_int sz\<rceil>"
    by (rule ceiling_mono)
  then show ?thesis
    by (simp add: pieces_count_def)
qed

lemma pieces_count_nonpos:
  assumes "sz \<le> 0"
  shows "pieces_count m sz \<le> 0"
proof -
  have "real (length m) * 1.0 / real_of_int sz \<le> 0"
    using assms by (simp add: divide_nonneg_nonpos)
  then have "\<lceil>real (length m) * 1.0 / real_of_int sz\<rceil> \<le> \<lceil>0::real\<rceil>"
    by (rule ceiling_mono)
  then show ?thesis
    by (simp add: pieces_count_def)
qed

lemma next_chunk_yield:
  assumes "0 < cg_size c" "int k < pieces_count (cg_message c) (cg_size c)" "k < 256"
  shows "next_chunk c \<lparr>g_sequence = k, g_i = int k * cg_size c, g_finished = False\<rparr>
    = (Yield (frame c k), \<lparr>g_sequence = Suc k, g_i = int (Suc k) * cg_size c, g_finished = False\<rparr>)"
proof -
  have "int k * cg_size c < int (length (cg_message c))"
    using assms pieces_count_less_iff by blast
  moreover have "nat (int k * cg_size c) = k * nat (cg_size c)"
    using assms(1) by (simp add: nat_mult_distrib)
  ultimately show ?thesis
    using assms(1,3)
    by (simp add: next_chunk_def range_has_def encode_def pack_B_def message_slice_def
        frame_def algebra_simps)
qed

lemma next_chunk_stop:
  assumes "0 < cg_size c" "\<not> int k < pieces_count (cg_message c) (cg_size c)"
  shows "next_chunk c \<lparr>g_sequence = k, g_i = int k * cg_size c, g_finished = False\<rparr>
    = (StopIteration, \<lparr>g_sequence = k, g_i = int k * cg_size c, g_finished = True\<rparr>)"
proof -
  have "\<not> int k * cg_size c < int (length (cg_message c))"
    using assms pieces_count_less_iff by blast
  then show ?thesis
    using assms(1) by (simp add: next_chunk_def range_has_def)
qed

lemma drain_from:
  assumes "0 < cg_size c" "pieces_count (cg_message c) (cg_size c) \<le> 256"
    and "n = nat (pieces_count (cg_message c) (cg_size c))" "k \<le> n"
  shows "drain c \<lparr>g_sequence = k, g_i = int k * cg_size c, g_finished = False\<rparr>
    = (map (frame c) [k..<n], None,
       \<lparr>g_sequence = n, g_i = int n * cg_size c, g_finished = True\<rparr>)"
  using assms(4)
proof (induction "n - k" arbitrary: k)
  case 0
  then have "k = n" by simp
  then have "\<not> int k < pieces_count (cg_message c) (cg_size c)"
    using assms(3) by simp
  from next_chunk_stop [OF assms(1) this] show ?case
    using \<open>k = n\<close> by (subst drain.simps) simp
next
  case (Suc d)
  then have lt: "k < n" by simp
  then have a: "int k < pieces_count (cg_message c) (cg_size c)"
    using assms(3) by linarith
  have b: "k < 256" using a assms(2) by linarith
  have "d = n - Suc k" "Suc k \<le> n" using Suc by simp_all
  then have ih: "drain c \<lparr>g_sequence = Suc k, g_i = int (Suc k) * cg_size c, g_finished = False\<rparr>
    = (map (frame c) [Suc k..<n], None,
       \<lparr>g_sequence = n, g_i = int n * cg_size c, g_finished = True\<rparr>)"
    using Suc.hyps(1) by blast
  show ?case
    by (subst drain.simps)
      (simp only: next_chunk_yield [OF assms(1) a b] ih upt_conv_Cons [OF lt]
        prod.case step.case list.map)
qed

lemma concat_slices: "concat (map (\<lambda>k. take s (drop (k * s) m)) [0..<n]) = take (n * s) m"
proof (induction n)
  case 0
  show ?case by simp
next
  case (Suc n)
  have "take (n * s + s) m = take (n * s) m @ take s (drop (n * s) m)"
    by (rule take_add)
  then have "take (Suc n * s) m = take (n * s) m @ take s (drop (n * s) m)"
    by (simp add: add.commute)
  with Suc show ?case by simp
qed

lemma length_pack_Q: "length (pack_Q bo w) = 8"
  by (cases bo) (simp_all add: pack_Q_def)

lemma init_Inr:
  assumes "ChunkedGELF_init bo rnd m sz = Inr c"
  shows "sz \<noteq> 0 \<and> 0 \<le> pieces_count m sz \<and> pieces_count m sz \<le> 255
    \<and> c = \<lparr>cg_message = m, cg_size = sz, cg_pieces = [word_of_int (pieces_count m sz)],
            cg_id = pack_Q bo rnd\<rparr>"
  using assms by (auto simp: ChunkedGELF_init_def pack_B_def split: if_splits)

lemma init_ok:
  assumes "0 < sz" "pieces_count m sz \<le> 255"
  shows "ChunkedGELF_init bo rnd m sz =
    Inr \<lparr>cg_message = m, cg_size = sz, cg_pieces = [word_of_int (pieces_count m sz)],
         cg_id = pack_Q bo rnd\<rparr>"
  using assms pieces_count_nonneg [OF assms(1), of m]
  by (simp add: ChunkedGELF_init_def pack_B_def)

lemma init_overflow:
  assumes "0 < sz" "255 < pieces_count m sz"
  shows "ChunkedGELF_init bo rnd m sz = Inl StructError"
  using assms by (simp add: ChunkedGELF_init_def pack_B_def)

lemma drain_iter:
  assumes "ChunkedGELF_init bo rnd m sz = Inr c"
  shows "drain c (ChunkedGELF_iter c) =
    (map (frame c) [0..<chunk_total m sz], None,
     \<lparr>g_sequence = chunk_total m sz, g_i = int (chunk_total m sz) * sz, g_finished = True\<rparr>)"
proof -
  note i = init_Inr [OF assms]
  then have c: "cg_message c = m" "cg_size c = sz"
    by simp_all
  show ?thesis
  proof (cases "0 < sz")
    case True
    have "drain c \<lparr>g_sequence = 0, g_i = int 0 * cg_size c, g_finished = False\<rparr> =
      (map (frame c) [0..<nat (pieces_count m sz)], None,
       \<lparr>g_sequence = nat (pieces_count m sz), g_i = int (nat (pieces_count m sz)) * cg_size c,
        g_finished = True\<rparr>)"
      by (rule drain_from) (use True i c in simp_all)
    then show ?thesis
      using True c by (simp add: ChunkedGELF_iter_def chunk_total_def)
  next
    case False
    then have "next_chunk c (ChunkedGELF_iter c) =
      (StopIteration, \<lparr>g_sequence = 0, g_i = 0, g_finished = True\<rparr>)"
      using i c by (simp add: next_chunk_def ChunkedGELF_iter_def range_has_def)
    then show ?thesis
      using False by (subst drain.simps) (simp add: chunk_total_def)
  qed
qed

lemma chunks_eq:
  assumes "ChunkedGELF_init bo rnd m sz = Inr c"
  shows "ChunkedGELF_chunks bo rnd m sz = (map (frame c) [0..<chunk_total m sz], None)"
  by (simp add: ChunkedGELF_chunks_def assms drain_iter [OF assms])

lemma chunks_error:
  assumes "ChunkedGELF_init bo rnd m sz = Inl e"
  shows "ChunkedGELF_chunks bo rnd m sz = ([], Some e)"
  by (simp add: ChunkedGELF_chunks_def assms)

lemma drop_frame:
  assumes "length (cg_id c) = 8" "length (cg_pieces c) = 1"
  shows "drop 12 (frame c k) = take (nat (cg_size c)) (drop (k * nat (cg_size c)) (cg_message c))"
  using assms by (simp add: frame_def)

lemma frame_id:
  assumes "length (cg_id c) = 8"
  shows "take 8 (drop 2 (frame c k)) = cg_id c"
  using assms by (simp add: frame_def)

lemma covers:
  assumes "0 < sz"
  shows "length m \<le> nat (pieces_count m sz) * nat sz"
proof -
  have "\<not> int (nat (pieces_count m sz)) < pieces_count m sz"
    by simp
  then have "\<not> int (nat (pieces_count m sz)) * sz < int (length m)"
    using pieces_count_less_iff [OF assms] by blast
  then have "int (length m) \<le> int (nat (pieces_count m sz)) * int (nat sz)"
    using assms by simp
  then show ?thesis
    by (simp only: of_nat_mult [symmetric] of_nat_le_iff)
qed

lemma frame_nth_11:
  assumes "length (cg_id c) = 8" "cg_pieces c = [p]"
  shows "frame c k ! 11 = p"
  using assms by (simp add: frame_def nth_append)

lemma frame_eq:
  assumes "ChunkedGELF_init bo rnd m sz = Inr c" "0 < sz"
  shows "frame c k = [0x1e, 0x0f] @ pack_Q bo rnd @ [word_of_nat k, word_of_nat (chunk_total m sz)]
    @ message_slice m (int k * sz) (int k * sz + sz)"
proof -
  note i = init_Inr [OF assms(1)]
  have "nat (int k * sz) = k * nat sz"
    using assms(2) by (simp add: nat_mult_distrib)
  moreover have "(word_of_int (pieces_count m sz) :: byte) = word_of_nat (nat (pieces_count m sz))"
    using i by simp
  ultimately show ?thesis
    using i assms(2) by (simp add: frame_def message_slice_def chunk_total_def)
qed

lemma chunk_total_le:
  assumes "ChunkedGELF_init bo rnd m sz = Inr c"
  shows "chunk_total m sz \<le> 255"
proof -
  have "pieces_count m sz \<le> 255"
    using init_Inr [OF assms] by simp
  then have "nat (pieces_count m sz) \<le> 255"
    by linarith
  then show ?thesis
    by (simp add: chunk_total_def)
qed

lemma length_frame:
  assumes "ChunkedGELF_init bo rnd m sz = Inr c" "0 < sz"
  shows "length (frame c k) = 12 + min (nat sz) (length m - k * nat sz)"
  using init_Inr [OF assms(1)] by (simp add: frame_def length_pack_Q)

lemma send_chunked:
  assumes "\<not> int (length s) < chunk_size h"
  shows "GELFUDPHandler_send h bo rnd s = ChunkedGELF_chunks bo rnd s (chunk_size h)"
  using assms by (simp add: GELFUDPHandler_send_def ChunkedGELF_chunks_def)

lemma chunks_not_payload:
  assumes "\<not> int (length s) < sz"
  shows "ChunkedGELF_chunks bo rnd s sz \<noteq> ([s], None)"
proof (cases "ChunkedGELF_init bo rnd s sz")
  case (Inl e)
  then show ?thesis
    by (simp add: chunks_error)
next
  case (Inr c)
  show ?thesis
  proof
    assume "ChunkedGELF_chunks bo rnd s sz = ([s], None)"
    then have eq: "map (frame c) [0..<chunk_total s sz] = [s]"
      by (simp add: chunks_eq [OF Inr])
    then have "length (map (frame c) [0..<chunk_total s sz]) = length [s]"
      by (rule arg_cong)
    then have one: "chunk_total s sz = 1"
      by simp
    then have pos: "0 < sz" and n: "pieces_count s sz = 1"
      by (simp_all add: chunk_total_def split: if_splits)
    have "\<not> int 1 < pieces_count s sz"
      using n by simp
    then have "\<not> int 1 * sz < int (length s)"
      using pieces_count_less_iff [OF pos] by blast
    then have len: "int (length s) = sz"
      using assms by simp
    from eq one have "frame c 0 = s"
      by simp
    then have "length (frame c 0) = length s"
      by simp
    then show False
      using length_frame [OF Inr pos, of 0] len by simp
  qed
qed

lemma pieces_count_self:
  assumes "0 < sz" "int (length s) = sz"
  shows "pieces_count s sz = 1"
proof -
  have "int 0 * sz < int (length s)" "\<not> int 1 * sz < int (length s)"
    using assms by simp_all
  then have "int 0 < pieces_count s sz" "\<not> int 1 < pieces_count s sz"
    using pieces_count_less_iff [OF assms(1)] by blast+
  then show ?thesis
    by simp
qed

lemma generator_after_Suc:
  "generator_after c (Suc k) = snd (next_chunk c (generator_after c k))"
  by (simp add: generator_after_def)

lemma next_chunk_finished:
  assumes "g_finished g"
  shows "next_chunk c g = (StopIteration, g)"
  using assms by (simp add: next_chunk_def)

lemma drain_finished:
  assumes "g_finished g"
  shows "drain c g = ([], None, g)"
  by (subst drain.simps) (simp add: next_chunk_finished [OF assms])

lemma generator_after_eq:
  assumes "ChunkedGELF_init bo rnd m sz = Inr c" "k \<le> chunk_total m sz"
  shows "generator_after c k = \<lparr>g_sequence = k, g_i = int k * sz, g_finished = False\<rparr>"
  using assms(2)
proof (induction k)
  case 0
  show ?case
    by (simp add: generator_after_def ChunkedGELF_iter_def)
next
  case (Suc k)
  note i = init_Inr [OF assms(1)]
  from Suc.prems have lt: "k < chunk_total m sz"
    by simp
  then have pos: "0 < cg_size c" and a: "int k < pieces_count (cg_message c) (cg_size c)"
    using i by (simp_all add: chunk_total_def split: if_splits)
  have b: "k < 256"
    using lt chunk_total_le [OF assms(1)] by simp
  have "generator_after c k = \<lparr>g_sequence = k, g_i = int k * cg_size c, g_finished = False\<rparr>"
    using Suc.IH lt i by simp
  then have "generator_after c (Suc k) =
    \<lparr>g_sequence = Suc k, g_i = int (Suc k) * cg_size c, g_finished = False\<rparr>"
    by (simp only: generator_after_Suc next_chunk_yield [OF pos a b] snd_conv)
  then show ?case
    using i by simp
qed

lemma next_chunk_at:
  assumes "ChunkedGELF_init bo rnd m sz = Inr c" "k < chunk_total m sz"
  shows "next_chunk c (generator_after c k) = (Yield (frame c k), generator_after c (Suc k))"
proof -
  note i = init_Inr [OF assms(1)]
  have pos: "0 < cg_size c" and a: "int k < pieces_count (cg_message c) (cg_size c)"
    using assms(2) i by (simp_all add: chunk_total_def split: if_splits)
  have b: "k < 256"
    using assms(2) chunk_total_le [OF assms(1)] by simp
  have g: "generator_after c k = \<lparr>g_sequence = k, g_i = int k * cg_size c, g_finished = False\<rparr>"
    using generator_after_eq [OF assms(1), of k] assms(2) i by simp
  have g': "generator_after c (Suc k) =
    \<lparr>g_sequence = Suc k, g_i = int (Suc k) * cg_size c, g_finished = False\<rparr>"
    using generator_after_eq [OF assms(1), of "Suc k"] assms(2) i by simp
  show ?thesis
    by (simp only: g g' next_chunk_yield [OF pos a b])
qed

lemma next_chunk_end:
  assumes "ChunkedGELF_init bo rnd m sz = Inr c"
  shows "next_chunk c (generator_after c (chunk_total m sz)) =
    (StopIteration, \<lparr>g_sequence = chunk_total m sz, g_i = int (chunk_total m sz) * sz,
       g_finished = True\<rparr>)"
proof -
  have c: "cg_message c = m" "cg_size c = sz" "sz \<noteq> 0"
    using init_Inr [OF assms] by simp_all
  have g: "generator_after c (chunk_total m sz) =
    \<lparr>g_sequence = chunk_total m sz, g_i = int (chunk_total m sz) * sz, g_finished = False\<rparr>"
    by (rule generator_after_eq [OF assms]) simp
  show ?thesis
  proof (cases "0 < sz")
    case True
    then have t: "chunk_total m sz = nat (pieces_count m sz)"
      by (simp add: chunk_total_def)
    have "\<not> int (chunk_total m sz) < pieces_count (cg_message c) (cg_size c)"
      using c t by simp
    moreover have "0 < cg_size c"
      using True c by simp
    ultimately have "next_chunk c
        \<lparr>g_sequence = chunk_total m sz, g_i = int (chunk_total m sz) * cg_size c,
          g_finished = False\<rparr> =
      (StopIteration, \<lparr>g_sequence = chunk_total m sz,
          g_i = int (chunk_total m sz) * cg_size c, g_finished = True\<rparr>)"
      by (rule next_chunk_stop [rotated])
    then show ?thesis
      by (simp only: g c)
  next
    case False
    then have t: "chunk_total m sz = 0"
      by (simp add: chunk_total_def)
    have "generator_after c 0 = \<lparr>g_sequence = 0, g_i = 0, g_finished = False\<rparr>"
      by (simp add: generator_after_def ChunkedGELF_iter_def)
    then show ?thesis
      using c False by (simp add: t next_chunk_def range_has_def)
  qed
qed

lemma frame_nth_10:
  assumes "length (cg_id c) = 8"
  shows "frame c k ! 10 = word_of_nat k"
  using assms by (simp add: frame_def nth_append)

subsection \<open>Claim C1\<close>

text \<open>
  C1, as the code has it. For a payload of length \<open>L\<close> and a chunk size \<open>S\<close> with
  \<open>1 \<le> S \<le> L\<close> whose chunk count \<open>ceil(L / S)\<close> fits the one-byte field (at most 255),
  iterating the chunker raises nothing and yields exactly \<open>ceil(L / S)\<close> chunks; the payload
  slices of the chunks (what follows the 12-byte header), concatenated in the order
  yielded, are the payload; byte 11 of every chunk, the total count, is \<open>ceil(L / S)\<close>; and
  bytes 2 to 9 of every chunk are the same 8-byte message id.
\<close>

theorem chunker_count_concat_total_id:
  assumes "1 \<le> sz" and "sz \<le> int (length m)" and "pieces_count m sz \<le> 255"
  shows "snd (ChunkedGELF_chunks bo rnd m sz) = None
    \<and> int (length (fst (ChunkedGELF_chunks bo rnd m sz))) = pieces_count m sz
    \<and> concat (map (drop 12) (fst (ChunkedGELF_chunks bo rnd m sz))) = m
    \<and> (\<forall>ch \<in> set (fst (ChunkedGELF_chunks bo rnd m sz)).
          uint (ch ! 11) = pieces_count m sz \<and> take 8 (drop 2 ch) = pack_Q bo rnd)"
proof -
  define c where "c = \<lparr>cg_message = m, cg_size = sz,
    cg_pieces = [word_of_int (pieces_count m sz) :: byte], cg_id = pack_Q bo rnd\<rparr>"
  have pos: "0 < sz" using assms(1) by simp
  have init: "ChunkedGELF_init bo rnd m sz = Inr c"
    unfolding c_def using pos assms(3) by (rule init_ok)
  have nn: "0 \<le> pieces_count m sz"
    using pos by (rule pieces_count_nonneg)
  have chunks: "ChunkedGELF_chunks bo rnd m sz = (map (frame c) [0..<nat (pieces_count m sz)], None)"
    using chunks_eq [OF init] pos by (simp add: chunk_total_def)
  have idl: "length (cg_id c) = 8"
    by (simp add: c_def length_pack_Q)
  have "map (drop 12) (map (frame c) [0..<nat (pieces_count m sz)]) =
      map (\<lambda>k. take (nat sz) (drop (k * nat sz) m)) [0..<nat (pieces_count m sz)]"
    using drop_frame [OF idl, of ] by (simp add: c_def)
  then have "concat (map (drop 12) (map (frame c) [0..<nat (pieces_count m sz)])) =
      take (nat (pieces_count m sz) * nat sz) m"
    by (simp only: concat_slices)
  also have "\<dots> = m"
    using covers [OF pos, of m] by simp
  finally have cat: "concat (map (drop 12) (map (frame c) [0..<nat (pieces_count m sz)])) = m" .
  have tot: "uint (frame c k ! 11) = pieces_count m sz" for k
  proof -
    have "frame c k ! 11 = (word_of_int (pieces_count m sz) :: byte)"
      by (rule frame_nth_11 [OF idl]) (simp add: c_def)
    moreover have "uint (word_of_int (pieces_count m sz) :: byte) = pieces_count m sz"
      using nn assms(3) by (simp add: uint_word_of_int_eq take_bit_int_eq_self)
    ultimately show ?thesis by simp
  qed
  have ident: "take 8 (drop 2 (frame c k)) = pack_Q bo rnd" for k
    using frame_id [OF idl, of k] by (simp add: c_def)
  show ?thesis
    using nn cat tot ident by (simp add: chunks)
qed

text \<open>The theorem at a payload of five bytes and a chunk size of two: three chunks.\<close>

theorem chunker_count_concat_total_id_witness:
  "(1::int) \<le> 2 \<and> (2::int) \<le> int (length [1, 2, 3, 4, 5 :: byte])
    \<and> pieces_count [1, 2, 3, 4, 5] 2 = 3
    \<and> snd (ChunkedGELF_chunks LittleEndian 7 [1, 2, 3, 4, 5] 2) = None
    \<and> length (fst (ChunkedGELF_chunks LittleEndian 7 [1, 2, 3, 4, 5] 2)) = 3
    \<and> concat (map (drop 12) (fst (ChunkedGELF_chunks LittleEndian 7 [1, 2, 3, 4, 5] 2)))
        = [1, 2, 3, 4, 5]"
proof -
  have p: "pieces_count [1, 2, 3, 4, 5] 2 = 3"
    by (simp add: pieces_count_def)
  have h: "(1::int) \<le> 2" "(2::int) \<le> int (length [1, 2, 3, 4, 5 :: byte])"
    "pieces_count [1, 2, 3, 4, 5] 2 \<le> 255"
    by (simp_all add: p)
  from chunker_count_concat_total_id [OF h, of LittleEndian 7] show ?thesis
    using p by simp
qed

text \<open>
  Without the two bounds the claim fails: a payload of 300 bytes and a chunk size of 1
  need 300 chunks, \<open>struct.pack('B', 300)\<close> raises in \<open>__init__\<close>, and no chunk is
  yielded; and with a chunk size of 0 the division in \<open>__init__\<close> raises.
\<close>

theorem chunker_overflow_yields_nothing:
  "(1::int) \<le> int (length (replicate 300 (0::byte)))
    \<and> pieces_count (replicate 300 0) 1 = 300
    \<and> ChunkedGELF_chunks LittleEndian 0 (replicate 300 0) 1 = ([], Some StructError)
    \<and> (0::int) \<le> int (length [1::byte])
    \<and> ChunkedGELF_chunks LittleEndian 0 [1] 0 = ([], Some ZeroDivisionError)"
  by (simp add: pieces_count_def ChunkedGELF_chunks_def ChunkedGELF_init_def pack_B_def)

subsection \<open>Claim C2\<close>

text \<open>
  C2. For every payload \<open>s\<close> and every UDP handler with chunk size \<open>S\<close>, \<open>send\<close> transmits
  \<open>s\<close> as a single unchunked datagram if and only if \<open>len(s) < S\<close>. A payload with
  \<open>len(s) = S\<close> (for a positive \<open>S\<close>) is sent as one chunk, with the chunk header in front;
  a payload with \<open>len(s) = S - 1\<close> is sent as it is, in one datagram; and whenever
  \<open>len(s) < S\<close> fails, what is sent is what the chunker yields.
\<close>

theorem send_unchunked_iff_shorter:
  "((GELFUDPHandler_send h bo rnd s = ([s], None)) = (int (length s) < chunk_size h))
   \<and> (int (length s) = chunk_size h \<and> 0 < chunk_size h \<longrightarrow>
        GELFUDPHandler_send h bo rnd s = ([[0x1e, 0x0f] @ pack_Q bo rnd @ [0, 1] @ s], None))
   \<and> (int (length s) = chunk_size h - 1 \<longrightarrow> GELFUDPHandler_send h bo rnd s = ([s], None))
   \<and> (\<not> int (length s) < chunk_size h \<longrightarrow>
        GELFUDPHandler_send h bo rnd s = ChunkedGELF_chunks bo rnd s (chunk_size h))"
proof (intro conjI impI)
  show "(GELFUDPHandler_send h bo rnd s = ([s], None)) = (int (length s) < chunk_size h)"
  proof (cases "int (length s) < chunk_size h")
    case True
    then show ?thesis
      by (simp add: GELFUDPHandler_send_def)
  next
    case False
    then show ?thesis
      using chunks_not_payload [OF False] by (simp add: send_chunked)
  qed
next
  assume a: "int (length s) = chunk_size h \<and> 0 < chunk_size h"
  then have pos: "0 < chunk_size h" and len: "int (length s) = chunk_size h"
    by simp_all
  have n: "pieces_count s (chunk_size h) = 1"
    using pos len by (rule pieces_count_self)
  have i: "ChunkedGELF_init bo rnd s (chunk_size h) =
    Inr \<lparr>cg_message = s, cg_size = chunk_size h,
      cg_pieces = [word_of_int (pieces_count s (chunk_size h))], cg_id = pack_Q bo rnd\<rparr>"
    using pos by (rule init_ok) (simp add: n)
  have "nat (chunk_size h) = length s"
    using len by simp
  then show "GELFUDPHandler_send h bo rnd s = ([[0x1e, 0x0f] @ pack_Q bo rnd @ [0, 1] @ s], None)"
    using len pos
    by (simp add: send_chunked chunks_eq [OF i] chunk_total_def n frame_def)
next
  assume "int (length s) = chunk_size h - 1"
  then show "GELFUDPHandler_send h bo rnd s = ([s], None)"
    by (simp add: GELFUDPHandler_send_def)
next
  assume "\<not> int (length s) < chunk_size h"
  then show "GELFUDPHandler_send h bo rnd s = ChunkedGELF_chunks bo rnd s (chunk_size h)"
    by (rule send_chunked)
qed

text \<open>The theorem at a chunk size of 3, for a payload of two bytes and one of three.\<close>

theorem send_unchunked_iff_shorter_witness:
  "GELFUDPHandler_send (BaseGELFHandler_init 3 True True False None None False True)
      LittleEndian 0 [1, 2] = ([[1, 2]], None)
   \<and> GELFUDPHandler_send (BaseGELFHandler_init 3 True True False None None False True)
      LittleEndian 0 [1, 2, 3] = ([[0x1e, 0x0f, 0, 0, 0, 0, 0, 0, 0, 0, 0, 1, 1, 2, 3]], None)"
proof -
  have q: "pack_Q LittleEndian 0 = [0, 0, 0, 0, 0, 0, 0, 0]"
    by (simp add: pack_Q_def upt_rec)
  from send_unchunked_iff_shorter [of "BaseGELFHandler_init 3 True True False None None False True" LittleEndian 0 "[1, 2]"]
    send_unchunked_iff_shorter [of "BaseGELFHandler_init 3 True True False None None False True" LittleEndian 0 "[1, 2, 3]"]
  show ?thesis
    by (simp add: BaseGELFHandler_init_def q)
qed

subsection \<open>Claim C3\<close>

text \<open>
  C3. For every payload and chunk size, the \<open>k\<close>-th chunk the chunker emits (counting
  from 0) is the two magic bytes \<open>0x1e 0x0f\<close>, the 8-byte message id, the sequence index
  \<open>k\<close> as one byte, the total chunk count as one byte, and the payload slice
  \<open>message[k * size : k * size + size]\<close>; there are at most 255 chunks, so both bytes hold
  their numbers exactly.
\<close>

theorem chunk_frame_layout:
  assumes "k < length (fst (ChunkedGELF_chunks bo rnd m sz))"
  shows "fst (ChunkedGELF_chunks bo rnd m sz) ! k =
      [0x1e, 0x0f] @ pack_Q bo rnd
        @ [word_of_nat k, word_of_nat (length (fst (ChunkedGELF_chunks bo rnd m sz)))]
        @ message_slice m (int k * sz) (int k * sz + sz)
    \<and> length (pack_Q bo rnd) = 8
    \<and> length (fst (ChunkedGELF_chunks bo rnd m sz)) \<le> 255"
proof (cases "ChunkedGELF_init bo rnd m sz")
  case (Inl e)
  with assms show ?thesis
    by (simp add: chunks_error)
next
  case (Inr c)
  have chunks: "fst (ChunkedGELF_chunks bo rnd m sz) = map (frame c) [0..<chunk_total m sz]"
    by (simp add: chunks_eq [OF Inr])
  with assms have k: "k < chunk_total m sz"
    by simp
  then have pos: "0 < sz"
    by (simp add: chunk_total_def split: if_splits)
  show ?thesis
    using k chunk_total_le [OF Inr] by (simp add: chunks frame_eq [OF Inr pos] length_pack_Q)
qed

text \<open>The theorem at the second of the two chunks of a three-byte payload.\<close>

theorem chunk_frame_layout_witness:
  "1 < length (fst (ChunkedGELF_chunks LittleEndian 0x0807060504030201 [10, 11, 12] 2))
   \<and> fst (ChunkedGELF_chunks LittleEndian 0x0807060504030201 [10, 11, 12] 2) ! 1 =
      [0x1e, 0x0f, 1, 2, 3, 4, 5, 6, 7, 8, 1, 2, 12]"
proof -
  have c: "ChunkedGELF_init LittleEndian 0x0807060504030201 [10, 11, 12] 2 =
    Inr \<lparr>cg_message = [10, 11, 12], cg_size = 2, cg_pieces = [2],
      cg_id = pack_Q LittleEndian 0x0807060504030201\<rparr>"
    by (simp add: ChunkedGELF_init_def pieces_count_def pack_B_def)
  have t: "chunk_total [10, 11, 12] 2 = 2"
    by (simp add: chunk_total_def pieces_count_def)
  have l: "length (fst (ChunkedGELF_chunks LittleEndian 0x0807060504030201 [10, 11, 12] 2)) = 2"
    by (simp add: chunks_eq [OF c] t)
  then have h: "1 < length (fst (ChunkedGELF_chunks LittleEndian 0x0807060504030201 [10, 11, 12] 2))"
    by simp
  have q: "pack_Q LittleEndian 0x0807060504030201 = [1, 2, 3, 4, 5, 6, 7, 8]"
    by (simp add: pack_Q_def upt_rec drop_bit_eq_div)
  from chunk_frame_layout [OF h] show ?thesis
    using h by (simp add: l q message_slice_def)
qed

subsection \<open>Claim C8\<close>

text \<open>
  C8, as the code has it. The module has no guard of its own, but when the chunk count
  \<open>ceil(L / S)\<close> is above 255, \<open>struct.pack('B', ...)\<close> raises
  \<open>struct.error\<close> in \<open>ChunkedGELF.__init__\<close>: no instance, no total-count byte and no chunk
  is produced, and \<open>GELFUDPHandler.send\<close> ends with that exception before any datagram is
  sent.
\<close>

theorem chunk_count_overflow_raises:
  assumes "255 < pieces_count s (chunk_size h)"
  shows "ChunkedGELF_init bo rnd s (chunk_size h) = Inl StructError
    \<and> ChunkedGELF_chunks bo rnd s (chunk_size h) = ([], Some StructError)
    \<and> GELFUDPHandler_send h bo rnd s = ([], Some StructError)"
proof -
  have pos: "0 < chunk_size h"
  proof (rule ccontr)
    assume "\<not> 0 < chunk_size h"
    then have "pieces_count s (chunk_size h) \<le> 0"
      by (simp add: pieces_count_nonpos)
    with assms show False
      by simp
  qed
  have i: "ChunkedGELF_init bo rnd s (chunk_size h) = Inl StructError"
    using pos assms by (rule init_overflow)
  have "int 1 < pieces_count s (chunk_size h)"
    using assms by simp
  then have "int 1 * chunk_size h < int (length s)"
    using pieces_count_less_iff [OF pos] by blast
  then have "\<not> int (length s) < chunk_size h"
    by simp
  then show ?thesis
    by (simp add: i chunks_error [OF i] GELFUDPHandler_send_def)
qed

text \<open>The theorem at a payload of 511 bytes and a chunk size of 2 (256 chunks).\<close>

theorem chunk_count_overflow_raises_witness:
  "255 < pieces_count (replicate 511 0) 2
    \<and> GELFUDPHandler_send (BaseGELFHandler_init 2 True True False None None False True)
        BigEndian 5 (replicate 511 0) = ([], Some StructError)"
proof -
  have h: "255 < pieces_count (replicate 511 0)
      (chunk_size (BaseGELFHandler_init 2 True True False None None False True))"
    by (simp add: BaseGELFHandler_init_def pieces_count_def)
  from chunk_count_overflow_raises [OF h, of BigEndian 5] show ?thesis
    using h by (simp add: BaseGELFHandler_init_def)
qed

text \<open>
  No truncated count byte is produced: with 256 bytes and a chunk size of 1 the count is
  256 and the constructor raises.
\<close>

theorem chunk_count_256_raises:
  "pieces_count (replicate 256 0) 1 = 256
    \<and> ChunkedGELF_init LittleEndian 0 (replicate 256 0) 1 = Inl StructError"
  by (simp add: pieces_count_def ChunkedGELF_init_def pack_B_def)

subsection \<open>Claim C9\<close>

text \<open>
  C9, as the code has it. For every chunker instance, the chunks are produced lazily, one
  per \<open>next()\<close>, in ascending sequence order: the \<open>k\<close>-th call on a new iterator yields the
  \<open>k\<close>-th chunk, whose sequence byte is \<open>k\<close>, and the call after the last chunk stops. An
  iterator is single-pass: the generator a finished loop leaves behind yields nothing
  more. The instance is restartable: \<open>__iter__\<close> makes a new generator at every call, so a
  second iteration of the same instance yields the same chunk sequence as the first.
\<close>

theorem chunker_lazy_ascending_restartable:
  assumes "ChunkedGELF_init bo rnd m sz = Inr c"
  shows "(\<forall>k < length (fst (iterate_twice c)).
            next_chunk c (generator_after c k) =
              (Yield (fst (iterate_twice c) ! k), generator_after c (Suc k))
            \<and> fst (iterate_twice c) ! k ! 10 = word_of_nat k)
    \<and> fst (next_chunk c (generator_after c (length (fst (iterate_twice c))))) = StopIteration
    \<and> drain c (snd (snd (drain c (ChunkedGELF_iter c)))) =
        ([], None, snd (snd (drain c (ChunkedGELF_iter c))))
    \<and> snd (iterate_twice c) = fst (iterate_twice c)
    \<and> fst (iterate_twice c) = fst (ChunkedGELF_chunks bo rnd m sz)"
proof -
  note d = drain_iter [OF assms]
  have tw: "iterate_twice c = (map (frame c) [0..<chunk_total m sz], map (frame c) [0..<chunk_total m sz])"
    by (simp add: iterate_twice_def d)
  have idl: "length (cg_id c) = 8"
    using init_Inr [OF assms] by (simp add: length_pack_Q)
  have "next_chunk c (generator_after c k) = (Yield (frame c k), generator_after c (Suc k))
      \<and> frame c k ! 10 = word_of_nat k" if "k < chunk_total m sz" for k
    using next_chunk_at [OF assms that] frame_nth_10 [OF idl] by simp
  moreover have "fst (next_chunk c (generator_after c (chunk_total m sz))) = StopIteration"
    by (simp add: next_chunk_end [OF assms])
  moreover have "drain c (snd (snd (drain c (ChunkedGELF_iter c)))) =
        ([], None, snd (snd (drain c (ChunkedGELF_iter c))))"
    by (rule drain_finished) (simp add: d)
  ultimately show ?thesis
    by (simp add: tw chunks_eq [OF assms])
qed

text \<open>The theorem at the instance built from a three-byte payload and a chunk size of 2.\<close>

theorem chunker_lazy_ascending_restartable_witness:
  "ChunkedGELF_init LittleEndian 0 [1, 2, 3] 2 =
      Inr \<lparr>cg_message = [1, 2, 3], cg_size = 2, cg_pieces = [2], cg_id = pack_Q LittleEndian 0\<rparr>
   \<and> snd (iterate_twice \<lparr>cg_message = [1, 2, 3], cg_size = 2, cg_pieces = [2],
        cg_id = pack_Q LittleEndian 0\<rparr>) =
      fst (ChunkedGELF_chunks LittleEndian 0 [1, 2, 3] 2)"
proof -
  have i: "ChunkedGELF_init LittleEndian 0 [1, 2, 3] 2 =
      Inr \<lparr>cg_message = [1, 2, 3], cg_size = 2, cg_pieces = [2], cg_id = pack_Q LittleEndian 0\<rparr>"
    by (simp add: ChunkedGELF_init_def pieces_count_def pack_B_def)
  from chunker_lazy_ascending_restartable [OF i] show ?thesis
    using i by simp
qed

text \<open>
  The claim that a second iteration of the same instance does not reproduce the chunks
  fails: both loops over this instance yield the same two chunks.
\<close>

theorem chunker_second_iteration_same_chunks:
  "ChunkedGELF_init LittleEndian 0 [1, 2, 3] 2 =
      Inr \<lparr>cg_message = [1, 2, 3], cg_size = 2, cg_pieces = [2], cg_id = [0, 0, 0, 0, 0, 0, 0, 0]\<rparr>
   \<and> iterate_twice \<lparr>cg_message = [1, 2, 3], cg_size = 2, cg_pieces = [2],
        cg_id = [0, 0, 0, 0, 0, 0, 0, 0]\<rparr> =
      ([[0x1e, 0x0f, 0, 0, 0, 0, 0, 0, 0, 0, 0, 2, 1, 2],
        [0x1e, 0x0f, 0, 0, 0, 0, 0, 0, 0, 0, 1, 2, 3]],
       [[0x1e, 0x0f, 0, 0, 0, 0, 0, 0, 0, 0, 0, 2, 1, 2],
        [0x1e, 0x0f, 0, 0, 0, 0, 0, 0, 0, 0, 1, 2, 3]])"
proof -
  have q: "pack_Q LittleEndian 0 = [0, 0, 0, 0, 0, 0, 0, 0]"
    by (simp add: pack_Q_def upt_rec)
  have i: "ChunkedGELF_init LittleEndian 0 [1, 2, 3] 2 =
      Inr \<lparr>cg_message = [1, 2, 3], cg_size = 2, cg_pieces = [2], cg_id = [0, 0, 0, 0, 0, 0, 0, 0]\<rparr>"
    by (simp add: ChunkedGELF_init_def pieces_count_def pack_B_def q)
  have t: "chunk_total [1, 2, 3] 2 = 2"
    by (simp add: chunk_total_def pieces_count_def)
  show ?thesis
    by (simp add: i iterate_twice_def drain_iter [OF i] t upt_rec frame_def)
qed

subsection \<open>The field extractor: auxiliary facts\<close>

lemma startswith_underscore: "startswith (''_'' @ key) ''_''"
  by (simp add: startswith_def)

lemma extra_fold_untouched:
  assumes "\<forall>key \<in> fst ` set items. key \<notin> set skip_list \<and> \<not> startswith key ''_'' \<longrightarrow> x \<noteq> ''_'' @ key"
  shows "map_of (fold (\<lambda>(key, v) d.
        if key \<notin> set skip_list \<and> \<not> startswith key ''_'' then AList.update (''_'' @ key) v d
        else d) items d) x = map_of d x"
  using assms
proof (induction items arbitrary: d)
  case Nil
  show ?case by simp
next
  case (Cons p items)
  obtain key v where p: "p = (key, v)"
    by (cases p)
  have rest: "\<forall>key \<in> fst ` set items. key \<notin> set skip_list \<and> \<not> startswith key ''_'' \<longrightarrow> x \<noteq> ''_'' @ key"
    using Cons.prems by simp
  have here: "key \<notin> set skip_list \<and> \<not> startswith key ''_'' \<longrightarrow> x \<noteq> ''_'' @ key"
    using Cons.prems p by simp
  show ?case
    using here by (simp add: p Cons.IH [OF rest] update_conv')
qed

lemma extra_fold_last:
  assumes "items = pre @ (key, v) # post" "key \<notin> fst ` set post"
    and "key \<notin> set skip_list" "\<not> startswith key ''_''"
  shows "map_of (fold (\<lambda>(key, v) d.
        if key \<notin> set skip_list \<and> \<not> startswith key ''_'' then AList.update (''_'' @ key) v d
        else d) items d) (''_'' @ key) = Some v"
proof -
  have "\<forall>k \<in> fst ` set post. k \<notin> set skip_list \<and> \<not> startswith k ''_'' \<longrightarrow> ''_'' @ key \<noteq> ''_'' @ k"
    using assms(2) by auto
  from extra_fold_untouched [OF this] show ?thesis
    using assms(3,4) by (simp add: assms(1) update_conv')
qed

lemma add_extra_fields_untouched:
  assumes "\<forall>key \<in> fst ` set (dict_items r). key \<notin> set skip_list \<and> \<not> startswith key ''_'' \<longrightarrow> x \<noteq> ''_'' @ key"
  shows "map_of (add_extra_fields d r) x = map_of d x"
  unfolding add_extra_fields_def using assms by (rule extra_fold_untouched)

lemma add_extra_fields_plain_key:
  assumes "\<not> startswith x ''_''"
  shows "map_of (add_extra_fields d r) x = map_of d x"
proof (rule add_extra_fields_untouched)
  show "\<forall>key \<in> fst ` set (dict_items r). key \<notin> set skip_list \<and> \<not> startswith key ''_'' \<longrightarrow> x \<noteq> ''_'' @ key"
    using assms startswith_underscore by auto
qed

lemma add_extra_fields_added:
  assumes "distinct (map fst (dict_items r))" "(key, v) \<in> set (dict_items r)"
    and "key \<notin> set skip_list" "\<not> startswith key ''_''"
  shows "map_of (add_extra_fields d r) (''_'' @ key) = Some v"
proof -
  obtain pre post where sp: "dict_items r = pre @ (key, v) # post"
    using assms(2) by (auto dest: split_list)
  then have "distinct (map fst pre @ key # map fst post)"
    using assms(1) by simp
  then have "key \<notin> fst ` set post"
    by auto
  with sp show ?thesis
    unfolding add_extra_fields_def using assms(3,4) by (rule extra_fold_last)
qed

lemma make_message_dict_extra:
  "make_message_dict ev h r =
    (if extra_fields h then add_extra_fields (make_message_dict ev (h\<lparr>extra_fields := False\<rparr>) r) r
     else make_message_dict ev (h\<lparr>extra_fields := False\<rparr>) r)"
  by (simp add: make_message_dict_def Let_def)

lemma base_level:
  "map_of (make_message_dict ev (h\<lparr>extra_fields := False\<rparr>) r) ''level'' =
    Some (PInt (dict_get SYSLOG_LEVELS (levelno r) (levelno r)))"
  by (simp add: make_message_dict_def Let_def dict_update_def update_conv')

lemma base_facility:
  "map_of (make_message_dict ev (h\<lparr>extra_fields := False\<rparr>) r) ''facility'' =
    Some (PStr (if truthy (facility h) then the (facility h) else name r))"
  by (simp add: make_message_dict_def Let_def dict_update_def update_conv')

lemma base_logger:
  assumes "facility h \<noteq> None"
  shows "map_of (make_message_dict ev (h\<lparr>extra_fields := False\<rparr>) r) ''_logger'' =
    Some (PStr (name r))"
  using assms by (simp add: make_message_dict_def Let_def dict_update_def update_conv')

lemma extra_fold_keeps:
  assumes "map_of d x \<noteq> None"
  shows "map_of (fold (\<lambda>(key, v) d.
        if key \<notin> set skip_list \<and> \<not> startswith key ''_'' then AList.update (''_'' @ key) v d
        else d) items d) x \<noteq> None"
  using assms
proof (induction items arbitrary: d)
  case Nil
  then show ?case by simp
next
  case (Cons p items)
  obtain key v where p: "p = (key, v)"
    by (cases p)
  show ?case
    using Cons.prems by (simp add: p Cons.IH update_conv')
qed

lemma example_base:
  "make_message_dict example_env (example_handler\<lparr>extra_fields := False\<rparr>) example_record =
    [(''version'', PStr ''1.0''), (''host'', PStr ''host''),
     (''short_message'', PStr ''connection lost''), (''full_message'', PStr ''connection lost''),
     (''timestamp'', PFloat 1700000000), (''level'', PInt 3), (''facility'', PStr ''app.db''),
     (''file'', PStr ''/srv/app/db.py''), (''line'', PInt 12), (''_function'', PStr ''connect''),
     (''_pid'', PInt 4242), (''_thread_name'', PStr ''MainThread''),
     (''_process_name'', PStr ''MainProcess'')]"
  by (simp add: make_message_dict_def Let_def example_env_def example_handler_def
      example_record_def BaseGELFHandler_init_def truthy_def get_full_message_def dict_get_def
      SYSLOG_LEVELS_def logging_CRITICAL_def logging_ERROR_def logging_WARNING_def
      logging_INFO_def logging_DEBUG_def dict_update_def)

subsection \<open>Claim C6\<close>

text \<open>
  C6. For every log record, handler and machine, the \<open>level\<close> field of the document is
  the syslog number of the record's severity when the severity is one of the five table
  entries (CRITICAL to 2, ERROR to 3, WARNING to 4, INFO to 6, DEBUG to 7), and the
  record's numeric severity unchanged for every other severity.
\<close>

theorem level_is_syslog_mapping:
  "map_of (make_message_dict ev h r) ''level'' =
    Some (PInt (if levelno r = logging_CRITICAL then 2
                else if levelno r = logging_ERROR then 3
                else if levelno r = logging_WARNING then 4
                else if levelno r = logging_INFO then 6
                else if levelno r = logging_DEBUG then 7
                else levelno r))"
proof -
  have "\<not> startswith ''level'' ''_''"
    by (simp add: startswith_def)
  then have "map_of (make_message_dict ev h r) ''level'' =
      map_of (make_message_dict ev (h\<lparr>extra_fields := False\<rparr>) r) ''level''"
    by (simp add: make_message_dict_extra [of ev h r] add_extra_fields_plain_key)
  then show ?thesis
    by (simp add: base_level dict_get_def SYSLOG_LEVELS_def logging_CRITICAL_def
        logging_ERROR_def logging_WARNING_def logging_INFO_def logging_DEBUG_def)
qed

text \<open>The theorem at a record of severity ERROR and at one of severity 25.\<close>

theorem level_is_syslog_mapping_witness:
  "map_of (make_message_dict example_env example_handler example_record) ''level'' = Some (PInt 3)
   \<and> map_of (make_message_dict example_env example_handler (example_record\<lparr>levelno := 25\<rparr>))
        ''level'' = Some (PInt 25)"
  using level_is_syslog_mapping [of example_env example_handler example_record]
    level_is_syslog_mapping [of example_env example_handler "example_record\<lparr>levelno := 25\<rparr>"]
  by (simp add: example_record_def logging_CRITICAL_def
        logging_ERROR_def logging_WARNING_def logging_INFO_def logging_DEBUG_def)

subsection \<open>Claim C7\<close>

text \<open>
  C7. With extra fields enabled: every attribute \<open>(key, value)\<close> of the record whose key
  is neither in the skip list nor starts with an underscore is in the document as
  \<open>'_' + key\<close> with that value, whatever the document held under that name before (the
  attributes of a \<open>dict\<close> have distinct keys; for an item list in general the last
  occurrence of a key in iteration order is the one that stays); every other key of the
  document is what it is without the extra fields, so nothing is added for an attribute
  of the skip list or one that starts with an underscore; and \<open>id\<close> is in the skip list.
\<close>

theorem extra_fields_added_and_overwrite:
  assumes "extra_fields h"
  shows "(distinct (map fst (dict_items r)) \<longrightarrow>
      (\<forall>(key, v) \<in> set (dict_items r).
         key \<notin> set skip_list \<and> \<not> startswith key ''_'' \<longrightarrow>
           map_of (make_message_dict ev h r) (''_'' @ key) = Some v))
    \<and> (\<forall>pre key v post.
         dict_items r = pre @ (key, v) # post \<and> key \<notin> fst ` set post
           \<and> key \<notin> set skip_list \<and> \<not> startswith key ''_'' \<longrightarrow>
         map_of (make_message_dict ev h r) (''_'' @ key) = Some v)
    \<and> (\<forall>x. (\<forall>key \<in> fst ` set (dict_items r).
               key \<notin> set skip_list \<and> \<not> startswith key ''_'' \<longrightarrow> x \<noteq> ''_'' @ key) \<longrightarrow>
         map_of (make_message_dict ev h r) x =
           map_of (make_message_dict ev (h\<lparr>extra_fields := False\<rparr>) r) x)
    \<and> ''id'' \<in> set skip_list"
proof -
  have m: "make_message_dict ev h r =
      add_extra_fields (make_message_dict ev (h\<lparr>extra_fields := False\<rparr>) r) r"
    using assms by (simp add: make_message_dict_extra [of ev h r])
  have "map_of (make_message_dict ev h r) (''_'' @ key) = Some v"
    if "distinct (map fst (dict_items r))" "(key, v) \<in> set (dict_items r)"
      "key \<notin> set skip_list" "\<not> startswith key ''_''" for key v
    unfolding m using that by (rule add_extra_fields_added)
  moreover have "map_of (make_message_dict ev h r) (''_'' @ key) = Some v"
    if "dict_items r = pre @ (key, v) # post" "key \<notin> fst ` set post"
      "key \<notin> set skip_list" "\<not> startswith key ''_''" for pre key v post
    unfolding m add_extra_fields_def using that by (rule extra_fold_last)
  moreover have "map_of (make_message_dict ev h r) x =
      map_of (make_message_dict ev (h\<lparr>extra_fields := False\<rparr>) r) x"
    if "\<forall>key \<in> fst ` set (dict_items r).
          key \<notin> set skip_list \<and> \<not> startswith key ''_'' \<longrightarrow> x \<noteq> ''_'' @ key" for x
    unfolding m using that by (rule add_extra_fields_untouched)
  moreover have "''id'' \<in> set skip_list"
    by (simp add: skip_list_def)
  ultimately show ?thesis
    by blast
qed

text \<open>
  The theorem at the example record: \<open>user\<close> is added, \<open>pid\<close> overwrites the debugging
  field \<open>_pid\<close>, and \<open>id\<close>, \<open>_private\<close> and \<open>name\<close> add nothing.
\<close>

theorem extra_fields_added_and_overwrite_witness:
  "extra_fields example_handler
   \<and> map_of (make_message_dict example_env example_handler example_record) ''_user'' =
       Some (PStr ''bob'')
   \<and> map_of (make_message_dict example_env example_handler example_record) ''_pid'' =
       Some (PInt 1)
   \<and> map_of (make_message_dict example_env example_handler example_record) ''_id'' = None
   \<and> map_of (make_message_dict example_env example_handler example_record) ''__private'' = None
   \<and> map_of (make_message_dict example_env example_handler example_record) ''_name'' = None"
proof -
  have h: "extra_fields example_handler"
    by (simp add: example_handler_def BaseGELFHandler_init_def)
  note t = extra_fields_added_and_overwrite [OF h, of example_record example_env]
  have d: "distinct (map fst (dict_items example_record))"
    by (simp add: example_record_def)
  have u: "(''user'', PStr ''bob'') \<in> set (dict_items example_record)"
    "''user'' \<notin> set skip_list \<and> \<not> startswith ''user'' ''_''"
    "(''pid'', PInt 1) \<in> set (dict_items example_record)"
    "''pid'' \<notin> set skip_list \<and> \<not> startswith ''pid'' ''_''"
    by (simp_all add: example_record_def skip_list_def startswith_def)
  have "map_of (make_message_dict example_env example_handler example_record) (''_'' @ ''user'') =
       Some (PStr ''bob'')"
    "map_of (make_message_dict example_env example_handler example_record) (''_'' @ ''pid'') =
       Some (PInt 1)"
    using t d u by blast+
  then have a: "map_of (make_message_dict example_env example_handler example_record) ''_user'' =
       Some (PStr ''bob'')"
    "map_of (make_message_dict example_env example_handler example_record) ''_pid'' =
       Some (PInt 1)"
    by simp_all
  have k: "\<forall>key \<in> fst ` set (dict_items example_record).
      key \<notin> set skip_list \<and> \<not> startswith key ''_'' \<longrightarrow>
        ''_id'' \<noteq> ''_'' @ key \<and> ''__private'' \<noteq> ''_'' @ key \<and> ''_name'' \<noteq> ''_'' @ key"
    by (simp add: example_record_def skip_list_def startswith_def)
  have b: "map_of (make_message_dict example_env example_handler example_record) x =
      map_of (make_message_dict example_env (example_handler\<lparr>extra_fields := False\<rparr>) example_record) x"
    if "x = ''_id'' \<or> x = ''__private'' \<or> x = ''_name''" for x
    using t k that by blast
  show ?thesis
    using h a by (simp add: b example_base)
qed

subsection \<open>Claim C10\<close>

text \<open>
  C10, as the code has it. With the facility override set to the empty string, the
  \<open>facility\<close> field of the document is the record's name, not the override, and yet
  \<open>_logger\<close> is added with the record's name. It is in the document built before the
  extra fields and stays a key of the final document; in the final document it holds the
  record's name whenever extra fields are disabled or the record has no attribute
  \<open>logger\<close>, and otherwise (extra fields enabled, attribute \<open>logger\<close> present) it holds
  the value of that attribute, whose extra field overwrites it. With no override (\<open>None\<close>)
  the \<open>facility\<close> field is the record's name as well, but no \<open>_logger\<close> is added: the two
  tests differ.
\<close>

theorem empty_facility_uses_name_and_adds_logger:
  assumes "facility h = Some ''''"
  shows "map_of (make_message_dict ev h r) ''facility'' = Some (PStr (name r))
    \<and> map_of (make_message_dict ev (h\<lparr>extra_fields := False\<rparr>) r) ''_logger'' = Some (PStr (name r))
    \<and> map_of (make_message_dict ev h r) ''_logger'' \<noteq> None
    \<and> (''logger'' \<notin> fst ` set (dict_items r) \<longrightarrow>
         map_of (make_message_dict ev h r) ''_logger'' = Some (PStr (name r)))
    \<and> (\<not> extra_fields h \<longrightarrow>
         map_of (make_message_dict ev h r) ''_logger'' = Some (PStr (name r)))
    \<and> (\<forall>v. extra_fields h \<and> distinct (map fst (dict_items r))
            \<and> (''logger'', v) \<in> set (dict_items r) \<longrightarrow>
         map_of (make_message_dict ev h r) ''_logger'' = Some v)
    \<and> map_of (make_message_dict ev (h\<lparr>facility := None\<rparr>) r) ''facility'' = Some (PStr (name r))
    \<and> map_of (make_message_dict ev (h\<lparr>facility := None, extra_fields := False\<rparr>) r) ''_logger''
         = None"
proof -
  have f: "facility h \<noteq> None" "\<not> truthy (facility h)"
    using assms by (simp_all add: truthy_def)
  have plain: "\<not> startswith ''facility'' ''_''"
    by (simp add: startswith_def)
  have fac: "map_of (make_message_dict ev h' r) ''facility'' =
      map_of (make_message_dict ev (h'\<lparr>extra_fields := False\<rparr>) r) ''facility''" for h'
    using plain by (simp add: make_message_dict_extra [of ev h' r] add_extra_fields_plain_key)
  have 1: "map_of (make_message_dict ev h r) ''facility'' = Some (PStr (name r))"
    using f by (simp add: fac base_facility)
  have 2: "map_of (make_message_dict ev (h\<lparr>extra_fields := False\<rparr>) r) ''_logger'' = Some (PStr (name r))"
    using f(1) by (rule base_logger)
  have 3: "map_of (make_message_dict ev h r) ''_logger'' \<noteq> None"
  proof (cases "extra_fields h")
    case True
    have "map_of (make_message_dict ev (h\<lparr>extra_fields := False\<rparr>) r) ''_logger'' \<noteq> None"
      using 2 by simp
    then have "map_of (add_extra_fields (make_message_dict ev (h\<lparr>extra_fields := False\<rparr>) r) r)
        ''_logger'' \<noteq> None"
      unfolding add_extra_fields_def by (rule extra_fold_keeps)
    moreover have "make_message_dict ev h r =
        add_extra_fields (make_message_dict ev (h\<lparr>extra_fields := False\<rparr>) r) r"
      using True by (simp add: make_message_dict_extra [of ev h r])
    ultimately show ?thesis
      by simp
  next
    case False
    then show ?thesis
      using 2 by (simp add: make_message_dict_extra [of ev h r])
  qed
  have 4: "map_of (make_message_dict ev h r) ''_logger'' = Some (PStr (name r))"
    if "''logger'' \<notin> fst ` set (dict_items r)"
  proof -
    have "\<forall>key \<in> fst ` set (dict_items r).
        key \<notin> set skip_list \<and> \<not> startswith key ''_'' \<longrightarrow> ''_logger'' \<noteq> ''_'' @ key"
      using that by auto
    then have "map_of (add_extra_fields d r) ''_logger'' = map_of d ''_logger''" for d
      by (rule add_extra_fields_untouched)
    then show ?thesis
      using 2 by (simp add: make_message_dict_extra [of ev h r])
  qed
  have 5: "map_of (make_message_dict ev h r) ''_logger'' = Some (PStr (name r))"
    if "\<not> extra_fields h"
    using that 2 by (simp add: make_message_dict_extra [of ev h r])
  have 6: "map_of (make_message_dict ev h r) ''_logger'' = Some v"
    if "extra_fields h" "distinct (map fst (dict_items r))" "(''logger'', v) \<in> set (dict_items r)"
    for v
  proof -
    have e: "''logger'' \<notin> set skip_list" "\<not> startswith ''logger'' ''_''"
      by (simp_all add: skip_list_def startswith_def)
    have "map_of (add_extra_fields (make_message_dict ev (h\<lparr>extra_fields := False\<rparr>) r) r)
        (''_'' @ ''logger'') = Some v"
      using that(2,3) e by (rule add_extra_fields_added)
    then show ?thesis
      using that(1) by (simp add: make_message_dict_extra [of ev h r])
  qed
  have 7: "map_of (make_message_dict ev (h\<lparr>facility := None\<rparr>) r) ''facility'' = Some (PStr (name r))"
    by (simp add: fac base_facility truthy_def)
  have 8: "map_of (make_message_dict ev (h\<lparr>facility := None, extra_fields := False\<rparr>) r) ''_logger''
         = None"
    by (simp add: make_message_dict_def Let_def dict_update_def update_conv')
  show ?thesis
    using 1 2 3 4 5 6 7 8 by blast
qed

text \<open>
  The theorem at the example handler, extra fields enabled, with the override set to the
  empty string, for a record that has no attribute \<open>logger\<close>: the final document holds the
  record's name under \<open>facility\<close> and under \<open>_logger\<close>.
\<close>

theorem empty_facility_uses_name_and_adds_logger_witness:
  "facility (example_handler\<lparr>facility := Some ''''\<rparr>) = Some ''''
   \<and> extra_fields (example_handler\<lparr>facility := Some ''''\<rparr>)
   \<and> ''logger'' \<notin> fst ` set (dict_items (example_record\<lparr>dict_items :=
        [(''name'', PStr ''app.db''), (''user'', PStr ''bob'')]\<rparr>))
   \<and> map_of (make_message_dict example_env (example_handler\<lparr>facility := Some ''''\<rparr>)
        (example_record\<lparr>dict_items := [(''name'', PStr ''app.db''), (''user'', PStr ''bob'')]\<rparr>))
        ''facility'' = Some (PStr ''app.db'')
   \<and> map_of (make_message_dict example_env (example_handler\<lparr>facility := Some ''''\<rparr>)
        (example_record\<lparr>dict_items := [(''name'', PStr ''app.db''), (''user'', PStr ''bob'')]\<rparr>))
        ''_logger'' = Some (PStr ''app.db'')"
proof -
  have h: "facility (example_handler\<lparr>facility := Some ''''\<rparr>) = Some ''''"
    by simp
  have e: "extra_fields (example_handler\<lparr>facility := Some ''''\<rparr>)"
    by (simp add: example_handler_def BaseGELFHandler_init_def)
  have l: "''logger'' \<notin> fst ` set (dict_items (example_record\<lparr>dict_items :=
        [(''name'', PStr ''app.db''), (''user'', PStr ''bob'')]\<rparr>))"
    by simp
  from empty_facility_uses_name_and_adds_logger [OF h, of example_env
      "example_record\<lparr>dict_items := [(''name'', PStr ''app.db''), (''user'', PStr ''bob'')]\<rparr>"]
  show ?thesis
    using h e l by (simp add: example_record_def)
qed

text \<open>
  As a statement about the produced document for every record, the claim fails: the
  example record has an attribute \<open>logger\<close>, and with extra fields enabled (the default)
  and the override set to the empty string the document holds the value of that attribute,
  not the record's name, under \<open>_logger\<close>.
\<close>

theorem empty_facility_logger_overwritten_by_extra:
  "facility (example_handler\<lparr>facility := Some ''''\<rparr>) = Some ''''
   \<and> name example_record = ''app.db''
   \<and> map_of (make_message_dict example_env (example_handler\<lparr>facility := Some ''''\<rparr>)
        example_record) ''_logger'' = Some (PStr ''other'')"
proof -
  have e: "extra_fields (example_handler\<lparr>facility := Some ''''\<rparr>)"
    by (simp add: example_handler_def BaseGELFHandler_init_def)
  have d: "distinct (map fst (dict_items example_record))"
    "(''logger'', PStr ''other'') \<in> set (dict_items example_record)"
    "''logger'' \<notin> set skip_list" "\<not> startswith ''logger'' ''_''"
    by (simp_all add: example_record_def skip_list_def startswith_def)
  have "map_of (add_extra_fields
        (make_message_dict example_env
          (example_handler\<lparr>facility := Some '''', extra_fields := False\<rparr>) example_record)
        example_record) (''_'' @ ''logger'') = Some (PStr ''other'')"
    using d by (rule add_extra_fields_added)
  then have "map_of (make_message_dict example_env (example_handler\<lparr>facility := Some ''''\<rparr>)
        example_record) ''_logger'' = Some (PStr ''other'')"
    using e
    by (simp add: make_message_dict_extra
        [of example_env "example_handler\<lparr>facility := Some ''''\<rparr>" example_record])
  then show ?thesis
    by (simp add: example_record_def)
qed

subsection \<open>Claim C4\<close>

text \<open>
  C4, on the code as written: a TCP handler is always built with compression disabled,
  but its \<open>makePickle\<close> returns no payload at all. For every record it raises
  \<open>AttributeError\<close>, where the docstring promises the serialized payload followed by one
  null byte.
\<close>

theorem tcp_makePickle_raises_AttributeError:
  "GELFTCPHandler_makePickle ev
      (GELFTCPHandler_init chunk_size' debugging_fields' extra_fields' fqdn' localname' facility'
         level_names') r = Inl AttributeError
   \<and> compress (GELFTCPHandler_init chunk_size' debugging_fields' extra_fields' fqdn' localname'
         facility' level_names') = False"
  by (simp add: GELFTCPHandler_makePickle_def GELFTCPHandler_init_def BaseGELFHandler_init_def)

end
